theory Spec2Isabelle
  imports Complex_Main "HOL-Library.Multiset" "HOL-Library.Sublist"
begin

section \<open>Folder audit: data model\<close>

text \<open>
  The program is \<^verbatim>\<open>src/folder_auditV3.py\<close>. A file record is the dictionary built in
  \<^verbatim>\<open>scan_folder\<close>, with its five keys as fields.

  Numbers. \<^verbatim>\<open>size_kb\<close> is a Python float. Every value the scanner stores is
  \<^verbatim>\<open>round(size_bytes / 1024, 2)\<close>: a decimal with two places (the float nearest to it).
  The model keeps the exact decimal as a rational number. Comparison with a threshold that
  is such a decimal too (the module's is 10), halving and rounding to an integer give the
  same answers on the float and on the decimal for every file smaller than \<open>2^53\<close>
  bytes; the binary rounding error of float addition and division (the total and the
  average of the summary) is not modelled, and neither are \<^verbatim>\<open>nan\<close> and \<^verbatim>\<open>inf\<close>,
  which no scan produces.

  Strings. A string is a list of 8-bit characters, and \<^verbatim>\<open>str.lower\<close> is modelled on
  ASCII: the letters \<^verbatim>\<open>A\<close> to \<^verbatim>\<open>Z\<close> are mapped to \<^verbatim>\<open>a\<close> to \<^verbatim>\<open>z\<close>, every other
  character is kept.
\<close>

record file_record =
  filename :: string
  full_path :: string
  extension :: string
  size_kb :: rat
  last_modified :: string

text \<open>The exceptions the program can meet. \<open>ValueError\<close> is the one raised by
  \<^verbatim>\<open>find_duplicates\<close> with the message \<^verbatim>\<open>Mode must be either 'size' or 'name'\<close>;
  \<open>OtherError\<close> stands for every exception that the handler of \<^verbatim>\<open>scan_folder\<close>
  does not catch.\<close>

datatype py_error =
    PermissionError
  | FileNotFoundError
  | OtherError
  | ValueError
  | StatisticsError

text \<open>The key of a duplicate group: a tuple \<^verbatim>\<open>(int, str)\<close> in size mode, a \<^verbatim>\<open>str\<close> in
  name mode.\<close>

datatype group_key = SizeKey int string | NameKey string

text \<open>The four numbers that \<^verbatim>\<open>print_summary\<close> computes and prints.\<close>

record summary_statistics =
  total_files :: nat
  total_size_kb :: rat
  average_size_kb :: rat
  median_size_kb :: rat

text \<open>
  The file system as the scanner sees it: the triples \<^verbatim>\<open>(root, dirs, files)\<close> that
  \<^verbatim>\<open>os.walk\<close> yields for a path (none for a path that does not exist), the size in bytes
  and the modification time of a path, each of which may raise, and the local-time
  rendering \<^verbatim>\<open>datetime.fromtimestamp(ts).strftime(DATE_FORMAT)\<close> of a time stamp, which
  may raise too (a time stamp out of the platform's range).
\<close>

record filesystem =
  walk :: "string \<Rightarrow> (string \<times> string list \<times> string list) list"
  getsize :: "string \<Rightarrow> py_error + nat"
  getmtime :: "string \<Rightarrow> py_error + rat"
  strftime :: "rat \<Rightarrow> py_error + string"

section \<open>Library functions the program calls\<close>

subsection \<open>\<^verbatim>\<open>str.lower\<close>\<close>

definition lower_char :: "char \<Rightarrow> char" where
  "lower_char c =
     (let n = (of_char c :: nat) in if 65 \<le> n \<and> n \<le> 90 then char_of (n + 32) else c)"

definition lower :: "string \<Rightarrow> string" where
  "lower s = map lower_char s"

subsection \<open>\<^verbatim>\<open>round\<close>\<close>

text \<open>Python's \<^verbatim>\<open>round(x)\<close> rounds to the nearest integer and a tie to the even one;
  \<^verbatim>\<open>round(x, 2)\<close> does the same at the second decimal place.\<close>

definition py_round :: "rat \<Rightarrow> int" where
  "py_round x =
     (let f = \<lfloor>x\<rfloor>; d = x - of_int f
      in if d < 1 / 2 then f
         else if 1 / 2 < d then f + 1
         else if even f then f else f + 1)"

definition py_round2 :: "rat \<Rightarrow> rat" where
  "py_round2 x = of_int (py_round (x * 100)) / 100"

subsection \<open>\<^verbatim>\<open>os.path.join\<close> and \<^verbatim>\<open>os.path.splitext\<close> (posixpath)\<close>

definition join :: "string \<Rightarrow> string \<Rightarrow> string" where
  "join a b =
     (if take 1 b = ''/'' \<or> a = [] then b
      else if a \<noteq> [] \<and> last a = CHR ''/'' then a @ b
      else a @ ''/'' @ b)"

text \<open>\<^verbatim>\<open>p.rfind(c)\<close>: the index of the last occurrence of \<open>c\<close>, or \<open>-1\<close>.\<close>

fun rfind_from :: "string \<Rightarrow> char \<Rightarrow> int \<Rightarrow> int \<Rightarrow> int" where
  "rfind_from [] c i found = found"
| "rfind_from (x # xs) c i found = rfind_from xs c (i + 1) (if x = c then i else found)"

definition rfind :: "string \<Rightarrow> char \<Rightarrow> int" where
  "rfind p c = rfind_from p c 0 (- 1)"

text \<open>
  \<^verbatim>\<open>
  def _splitext(p, sep, altsep, extsep):
      sepIndex = p.rfind(sep)
      if altsep:
          altsepIndex = p.rfind(altsep)
          sepIndex = max(sepIndex, altsepIndex)
      dotIndex = p.rfind(extsep)
      if dotIndex > sepIndex:
          # skip all leading dots
          filenameIndex = sepIndex + 1
          while filenameIndex < dotIndex:
              if p[filenameIndex:filenameIndex+1] != extsep:
                  return p[:dotIndex], p[dotIndex:]
              filenameIndex += 1
      return p, p[:0]
  \<close>
\<close>

function skip_leading_dots :: "string \<Rightarrow> char \<Rightarrow> nat \<Rightarrow> nat \<Rightarrow> string \<times> string" where
  "skip_leading_dots p extsep filenameIndex dotIndex =
     (if filenameIndex < dotIndex then
        (if take 1 (drop filenameIndex p) \<noteq> [extsep] then (take dotIndex p, drop dotIndex p)
         else skip_leading_dots p extsep (filenameIndex + 1) dotIndex)
      else (p, []))"
  by pat_completeness auto
termination
  by (relation "measure (\<lambda>(p, extsep, filenameIndex, dotIndex). dotIndex - filenameIndex)") auto

declare skip_leading_dots.simps [simp del]

definition splitext_generic :: "string \<Rightarrow> char \<Rightarrow> char option \<Rightarrow> char \<Rightarrow> string \<times> string" where
  "splitext_generic p sep altsep extsep =
     (let sepIndex = rfind p sep;
          sepIndex = (case altsep of None \<Rightarrow> sepIndex | Some a \<Rightarrow> max sepIndex (rfind p a));
          dotIndex = rfind p extsep
      in if sepIndex < dotIndex then skip_leading_dots p extsep (nat (sepIndex + 1)) (nat dotIndex)
         else (p, []))"

definition splitext :: "string \<Rightarrow> string \<times> string" where
  "splitext p = splitext_generic p (CHR ''/'') None (CHR ''.'')"

subsection \<open>\<^verbatim>\<open>statistics.median\<close>\<close>

text \<open>
  \<^verbatim>\<open>
  def median(data):
      data = sorted(data)
      n = len(data)
      if n == 0:
          raise StatisticsError("no median for empty data")
      if n % 2 == 1:
          return data[n // 2]
      else:
          i = n // 2
          return (data[i - 1] + data[i]) / 2
  \<close>
\<close>

definition median :: "rat list \<Rightarrow> py_error + rat" where
  "median data =
     (let data = sort data; n = length data
      in if n = 0 then Inl StatisticsError
         else if n mod 2 = 1 then Inr (data ! (n div 2))
         else (let i = n div 2 in Inr ((data ! (i - 1) + data ! i) / 2)))"

section \<open>The program\<close>

definition MIN_SIZE_KB :: rat where
  "MIN_SIZE_KB = 10"

definition RECURSIVE :: bool where
  "RECURSIVE = True"

subsection \<open>\<^verbatim>\<open>scan_folder\<close>\<close>

text \<open>The handler \<^verbatim>\<open>except (PermissionError, FileNotFoundError): continue\<close>: these two
  exceptions skip the file, any other leaves the function.\<close>

definition skip_or_raise :: "py_error \<Rightarrow> py_error + file_record option" where
  "skip_or_raise e = (if e = PermissionError \<or> e = FileNotFoundError then Inr None else Inl e)"

text \<open>The body of the inner loop for one file name: \<open>Inr (Some r)\<close> when the record \<open>r\<close> is
  appended, \<open>Inr None\<close> when the loop continues without a record, \<open>Inl e\<close> when the
  exception \<open>e\<close> leaves \<^verbatim>\<open>scan_folder\<close>.\<close>

definition scan_file :: "rat \<Rightarrow> filesystem \<Rightarrow> string \<Rightarrow> string \<Rightarrow> py_error + file_record option" where
  "scan_file min_size_kb fs root_dir name =
     (let path = join root_dir name;
          ext = lower (snd (splitext name))
      in case getsize fs path of
           Inl e \<Rightarrow> skip_or_raise e
         | Inr size_bytes \<Rightarrow>
             (let kb = py_round2 (of_nat size_bytes / 1024)
              in if kb < min_size_kb then Inr None
                 else (case getmtime fs path of
                         Inl e \<Rightarrow> skip_or_raise e
                       | Inr modified_ts \<Rightarrow>
                           (case strftime fs modified_ts of
                              Inl e \<Rightarrow> skip_or_raise e
                            | Inr stamp \<Rightarrow>
                                Inr (Some \<lparr>filename = name, full_path = path, extension = ext,
                                           size_kb = kb, last_modified = stamp\<rparr>)))))"

text \<open>The inner loop over the files of one directory, with the list of records so far.\<close>

fun scan_files :: "rat \<Rightarrow> filesystem \<Rightarrow> string \<Rightarrow> string list \<Rightarrow> file_record list
    \<Rightarrow> py_error + file_record list" where
  "scan_files min_size_kb fs root_dir [] records = Inr records"
| "scan_files min_size_kb fs root_dir (name # names) records =
     (case scan_file min_size_kb fs root_dir name of
        Inl e \<Rightarrow> Inl e
      | Inr None \<Rightarrow> scan_files min_size_kb fs root_dir names records
      | Inr (Some record) \<Rightarrow> scan_files min_size_kb fs root_dir names (records @ [record]))"

text \<open>The outer loop over the triples of \<^verbatim>\<open>os.walk\<close>.\<close>

fun scan_walk :: "rat \<Rightarrow> bool \<Rightarrow> filesystem \<Rightarrow> string \<Rightarrow> (string \<times> string list \<times> string list) list
    \<Rightarrow> file_record list \<Rightarrow> py_error + file_record list" where
  "scan_walk min_size_kb recursive fs folder_path [] records = Inr records"
| "scan_walk min_size_kb recursive fs folder_path ((root_dir, dirs, files) # rest) records =
     (if \<not> recursive \<and> root_dir \<noteq> folder_path
      then scan_walk min_size_kb recursive fs folder_path rest records
      else (case scan_files min_size_kb fs root_dir files records of
              Inl e \<Rightarrow> Inl e
            | Inr records' \<Rightarrow> scan_walk min_size_kb recursive fs folder_path rest records'))"

text \<open>\<^verbatim>\<open>scan_folder\<close> with the two module-level settings as arguments, and as the module
  defines them.\<close>

definition scan_folder_with :: "rat \<Rightarrow> bool \<Rightarrow> filesystem \<Rightarrow> string \<Rightarrow> py_error + file_record list" where
  "scan_folder_with min_size_kb recursive fs folder_path =
     scan_walk min_size_kb recursive fs folder_path (walk fs folder_path) []"

definition scan_folder :: "filesystem \<Rightarrow> string \<Rightarrow> py_error + file_record list" where
  "scan_folder fs folder_path = scan_folder_with MIN_SIZE_KB RECURSIVE fs folder_path"

subsection \<open>\<^verbatim>\<open>find_duplicates\<close>\<close>

text \<open>The key computed in the loop body for one record, or the \<^verbatim>\<open>ValueError\<close> of the
  \<^verbatim>\<open>else\<close> branch.\<close>

definition key_of :: "string \<Rightarrow> file_record \<Rightarrow> py_error + group_key" where
  "key_of mode r =
     (if mode = ''size'' then Inr (SizeKey (py_round (size_kb r / 2)) (lower (extension r)))
      else if mode = ''name'' then Inr (NameKey (lower (filename r)))
      else Inl ValueError)"

text \<open>\<^verbatim>\<open>groups[key].append(r)\<close> on a \<^verbatim>\<open>defaultdict(list)\<close>: the dictionary is an association
  list in insertion order, a new key enters at the end.\<close>

fun groups_append :: "group_key \<Rightarrow> file_record \<Rightarrow> (group_key \<times> file_record list) list
    \<Rightarrow> (group_key \<times> file_record list) list" where
  "groups_append key r [] = [(key, [r])]"
| "groups_append key r ((k, v) # rest) =
     (if k = key then (k, v @ [r]) # rest else (k, v) # groups_append key r rest)"

fun group_records :: "string \<Rightarrow> file_record list \<Rightarrow> (group_key \<times> file_record list) list
    \<Rightarrow> py_error + (group_key \<times> file_record list) list" where
  "group_records mode [] groups = Inr groups"
| "group_records mode (r # rs) groups =
     (case key_of mode r of
        Inl e \<Rightarrow> Inl e
      | Inr key \<Rightarrow> group_records mode rs (groups_append key r groups))"

definition find_duplicates :: "file_record list \<Rightarrow> string
    \<Rightarrow> py_error + (group_key \<times> file_record list) list" where
  "find_duplicates records mode =
     (case group_records mode records [] of
        Inl e \<Rightarrow> Inl e
      | Inr groups \<Rightarrow> Inr (filter (\<lambda>(k, v). 1 < length v) groups))"

subsection \<open>\<^verbatim>\<open>print_summary\<close>\<close>

text \<open>The values computed before the \<^verbatim>\<open>print\<close> calls (the calls format each with two
  decimals). \<^verbatim>\<open>statistics.median\<close> can raise, so the result is a sum.\<close>

definition print_summary :: "file_record list \<Rightarrow> py_error + summary_statistics" where
  "print_summary records =
     (let n = length records;
          total = sum_list (map size_kb records);
          size_values = filter (\<lambda>v. 0 < v) (map size_kb records)
      in case (if size_values \<noteq> [] then median size_values else Inr 0) of
           Inl e \<Rightarrow> Inl e
         | Inr med \<Rightarrow>
             Inr \<lparr>total_files = n, total_size_kb = total,
                  average_size_kb = (if 0 < n then total / of_nat n else 0),
                  median_size_kb = med\<rparr>)"

section \<open>Auxiliary definitions for the statements\<close>

text \<open>The key of a record under one of the two recognised modes, without the error
  branch.\<close>

definition mode_key :: "string \<Rightarrow> file_record \<Rightarrow> group_key" where
  "mode_key mode r =
     (if mode = ''size'' then SizeKey (py_round (size_kb r / 2)) (lower (extension r))
      else NameKey (lower (filename r)))"

text \<open>Concrete records on which the statements are instantiated.\<close>

definition example_record :: "string \<Rightarrow> string \<Rightarrow> string \<Rightarrow> rat \<Rightarrow> file_record" where
  "example_record dir name ext kb =
     \<lparr>filename = name, full_path = join dir name, extension = ext, size_kb = kb,
      last_modified = ''2024-01-01 00:00:00''\<rparr>"

definition size_examples :: "file_record list" where
  "size_examples =
     [example_record ''/a'' ''x.pdf'' ''pdf'' 11,
      example_record ''/a'' ''y.pdf'' ''pdf'' (25 / 2),
      example_record ''/a'' ''z.docx'' ''docx'' 11]"

definition name_examples :: "file_record list" where
  "name_examples =
     [example_record ''/a'' ''Report.PDF'' ''.pdf'' 20,
      example_record ''/b'' ''report.pdf'' ''.pdf'' 30,
      example_record ''/b'' ''report.pdf.bak'' ''.bak'' 30]"

definition mixed_examples :: "file_record list" where
  "mixed_examples =
     [example_record ''/a'' ''x.pdf'' ''.pdf'' 11,
      example_record ''/a'' ''n.txt'' ''.txt'' 40,
      example_record ''/a'' ''y.pdf'' ''.PDF'' (25 / 2),
      example_record ''/b'' ''m.txt'' ''.txt'' 41,
      example_record ''/b'' ''solo.bin'' ''.bin'' 100]"

definition mixed_duplicates :: "(group_key \<times> file_record list) list" where
  "mixed_duplicates =
     [(SizeKey 6 ''.pdf'',
       [example_record ''/a'' ''x.pdf'' ''.pdf'' 11,
        example_record ''/a'' ''y.pdf'' ''.PDF'' (25 / 2)]),
      (SizeKey 20 ''.txt'',
       [example_record ''/a'' ''n.txt'' ''.txt'' 40,
        example_record ''/b'' ''m.txt'' ''.txt'' 41])]"

text \<open>
  A file is inaccessible when its size, or else its modification time, cannot be read
  because the file vanished (\<^verbatim>\<open>FileNotFoundError\<close>) or permission was denied
  (\<^verbatim>\<open>PermissionError\<close>).
\<close>

definition inaccessible :: "filesystem \<Rightarrow> string \<Rightarrow> bool" where
  "inaccessible fs path =
     (case getsize fs path of
        Inl e \<Rightarrow> e = PermissionError \<or> e = FileNotFoundError
      | Inr n \<Rightarrow>
          (case getmtime fs path of
             Inl e \<Rightarrow> e = PermissionError \<or> e = FileNotFoundError
           | Inr t \<Rightarrow> False))"

text \<open>
  A small tree: \<^verbatim>\<open>/data\<close> holds a file of 5 KB, one of 20 KB, one that vanished and one
  whose modification time may not be read; \<^verbatim>\<open>/data/sub\<close> holds two files without
  extension, the second of 10235 bytes (9.995 KB, rounded to 10.0).
\<close>

definition example_fs :: filesystem where
  "example_fs =
     \<lparr>walk = (\<lambda>p. if p = ''/data''
                 then [(''/data'', [''sub''], [''small.txt'', ''big.TXT'', ''gone.log'', ''locked.bin'']),
                       (''/data/sub'', [], [''notes'', ''.hidden''])]
                 else []),
      getsize = (\<lambda>p. if p = ''/data/small.txt'' then Inr 5120
                    else if p = ''/data/big.TXT'' then Inr 20480
                    else if p = ''/data/locked.bin'' then Inr 30000
                    else if p = ''/data/sub/notes'' then Inr 11000
                    else if p = ''/data/sub/.hidden'' then Inr 10235
                    else Inl FileNotFoundError),
      getmtime = (\<lambda>p. if p = ''/data/locked.bin'' then Inl PermissionError else Inr 1700000000),
      strftime = (\<lambda>t. Inr ''2023-11-14 22:13:20'')\<rparr>"

definition example_scan :: "file_record list" where
  "example_scan =
     [\<lparr>filename = ''big.TXT'', full_path = ''/data/big.TXT'', extension = ''.txt'',
       size_kb = 20, last_modified = ''2023-11-14 22:13:20''\<rparr>,
      \<lparr>filename = ''notes'', full_path = ''/data/sub/notes'', extension = [],
       size_kb = 537 / 50, last_modified = ''2023-11-14 22:13:20''\<rparr>,
      \<lparr>filename = ''.hidden'', full_path = ''/data/sub/.hidden'', extension = [],
       size_kb = 10, last_modified = ''2023-11-14 22:13:20''\<rparr>]"

definition example_fs_unlocked :: filesystem where
  "example_fs_unlocked =
     example_fs\<lparr>walk := (walk example_fs)(''/data'' :=
        [] @ (''/data'', [''sub''], [''small.txt'', ''big.TXT'', ''gone.log''] @ []) #
        [(''/data/sub'', [], [''notes'', ''.hidden''])])\<rparr>"



text \<open>Five records, one of them of size 0.\<close>

definition example_sized :: "file_record list" where
  "example_sized =
     [example_record ''/a'' ''big.bin'' ''.bin'' 40,
      example_record ''/a'' ''empty.log'' ''.log'' 0,
      example_record ''/a'' ''mid.txt'' ''.txt'' 20,
      example_record ''/b'' ''odd.txt'' ''.txt'' (25 / 2),
      example_record ''/b'' ''top.iso'' ''.iso'' 100]"

section \<open>Lemmas on the grouping loop\<close>

lemma key_of_invalid:
  "mode \<noteq> ''size'' \<Longrightarrow> mode \<noteq> ''name'' \<Longrightarrow> key_of mode r = Inl ValueError"
  by (simp add: key_of_def)

lemma group_records_foldl:
  "(\<And>r. r \<in> set rs \<Longrightarrow> key_of mode r = Inr (kf r)) \<Longrightarrow>
   group_records mode rs groups = Inr (foldl (\<lambda>G r. groups_append (kf r) r G) groups rs)"
  by (induction rs arbitrary: groups) simp_all

lemma map_of_groups_append:
  "map_of (groups_append k r G) =
     (map_of G)(k \<mapsto> (case map_of G k of None \<Rightarrow> [r] | Some v \<Rightarrow> v @ [r]))"
  by (induction G) (auto simp: fun_eq_iff)

lemma keys_groups_append:
  "map fst (groups_append k r G) = (if k \<in> set (map fst G) then map fst G else map fst G @ [k])"
  by (induction G) (auto simp: image_iff, force+)

lemma distinct_groups_append:
  "distinct (map fst G) \<Longrightarrow> distinct (map fst (groups_append k r G))"
  by (simp add: keys_groups_append)

lemma distinct_foldl_groups:
  "distinct (map fst G) \<Longrightarrow> distinct (map fst (foldl (\<lambda>G r. groups_append (kf r) r G) G rs))"
  by (induction rs arbitrary: G) (simp_all add: distinct_groups_append)

lemma map_of_foldl_groups:
  "map_of (foldl (\<lambda>G r. groups_append (kf r) r G) G rs) k =
     (case map_of G k of
        None \<Rightarrow> (if filter (\<lambda>r. kf r = k) rs = [] then None else Some (filter (\<lambda>r. kf r = k) rs))
      | Some v \<Rightarrow> Some (v @ filter (\<lambda>r. kf r = k) rs))"
  by (induction rs arbitrary: G) (auto simp: map_of_groups_append split: option.splits)

lemma map_of_filter_values:
  "distinct (map fst G) \<Longrightarrow>
   map_of (filter (\<lambda>(k, v). P v) G) k =
     (case map_of G k of None \<Rightarrow> None | Some v \<Rightarrow> if P v then Some v else None)"
  by (induction G) (auto split: option.splits simp: map_of_eq_None_iff image_iff)

lemma distinct_filter_keys:
  "distinct (map fst G) \<Longrightarrow> distinct (map fst (filter P G))"
  by (simp add: distinct_map_filter)


lemma find_duplicates_groups:
  assumes "\<And>r. r \<in> set rs \<Longrightarrow> key_of mode r = Inr (kf r)"
  shows "\<exists>res. find_duplicates rs mode = Inr res \<and> distinct (map fst res) \<and>
           (\<forall>k. map_of res k =
              (if 2 \<le> length (filter (\<lambda>r. kf r = k) rs) then Some (filter (\<lambda>r. kf r = k) rs)
               else None))"
proof -
  let ?G = "foldl (\<lambda>G r. groups_append (kf r) r G) [] rs"
  let ?res = "filter (\<lambda>(k, v). 1 < length v) ?G"
  have run: "group_records mode rs [] = Inr ?G"
    using assms by (rule group_records_foldl)
  have dG: "distinct (map fst ?G)"
    by (rule distinct_foldl_groups) simp
  have "find_duplicates rs mode = Inr ?res"
    by (simp add: find_duplicates_def run)
  moreover have "distinct (map fst ?res)"
    using dG by (rule distinct_filter_keys)
  moreover have "map_of ?res k =
      (if 2 \<le> length (filter (\<lambda>r. kf r = k) rs) then Some (filter (\<lambda>r. kf r = k) rs) else None)"
    for k
    by (simp add: map_of_filter_values [OF dG] map_of_foldl_groups)
  ultimately show ?thesis by blast
qed

lemma key_of_mode_key:
  "mode = ''size'' \<or> mode = ''name'' \<Longrightarrow> key_of mode r = Inr (mode_key mode r)"
  by (auto simp: key_of_def mode_key_def)

lemma find_duplicates_members:
  assumes "mode = ''size'' \<or> mode = ''name''"
  shows "\<exists>res. find_duplicates rs mode = Inr res \<and> distinct (map fst res) \<and>
           (\<forall>k g. (k, g) \<in> set res \<longleftrightarrow>
              g = filter (\<lambda>r. mode_key mode r = k) rs \<and> 2 \<le> length g)"
proof -
  obtain res where res: "find_duplicates rs mode = Inr res" "distinct (map fst res)"
    and look: "\<And>k. map_of res k =
      (if 2 \<le> length (filter (\<lambda>r. mode_key mode r = k) rs)
       then Some (filter (\<lambda>r. mode_key mode r = k) rs) else None)"
    using find_duplicates_groups [of rs mode "mode_key mode"] key_of_mode_key [OF assms]
    by blast
  have "(k, g) \<in> set res \<longleftrightarrow> g = filter (\<lambda>r. mode_key mode r = k) rs \<and> 2 \<le> length g" for k g
  proof -
    have "(k, g) \<in> set res \<longleftrightarrow> map_of res k = Some g"
      using res(2) by (auto simp: map_of_eq_Some_iff)
    then show ?thesis by (auto simp: look)
  qed
  with res show ?thesis by blast
qed


lemma sum_filter_keys:
  "distinct ks \<Longrightarrow>
   mset (concat (map (\<lambda>k. filter (\<lambda>r. kf r = k) rs) ks)) = mset (filter (\<lambda>r. kf r \<in> set ks) rs)"
proof (induction ks)
  case Nil
  then show ?case by simp
next
  case (Cons k ks)
  have "mset (filter (\<lambda>r. kf r = k) rs) + mset (filter (\<lambda>r. kf r \<in> set ks) rs)
        = mset (filter (\<lambda>r. kf r = k \<or> kf r \<in> set ks) rs)"
    using Cons.prems by (induction rs) auto
  with Cons show ?case by simp
qed

lemma groups_as_filters:
  assumes "distinct (map fst res)"
    and "\<And>k g. (k, g) \<in> set res \<Longrightarrow> g = filter (\<lambda>r. kf r = k) rs"
  shows "map snd res = map (\<lambda>k. filter (\<lambda>r. kf r = k) rs) (map fst res)"
  using assms by (induction res) auto





section \<open>Lemmas on \<^verbatim>\<open>splitext\<close>\<close>














section \<open>Lemmas on the scanning loops\<close>

lemma scan_file_record:
  assumes "scan_file m fs root_dir name = Inr (Some r)"
  shows "m \<le> size_kb r \<and>
         (\<exists>n. getsize fs (full_path r) = Inr n \<and> size_kb r = py_round2 (of_nat n / 1024)) \<and>
         filename r = name \<and> full_path r = join root_dir name \<and>
         extension r = lower (snd (splitext name))"
  using assms
  by (auto simp: scan_file_def Let_def skip_or_raise_def split: sum.splits if_splits)

lemma scan_files_invariant:
  assumes "scan_files m fs root_dir names acc = Inr out"
    and "\<forall>r \<in> set acc. P r"
    and "\<And>name r. scan_file m fs root_dir name = Inr (Some r) \<Longrightarrow> P r"
  shows "\<forall>r \<in> set out. P r"
  using assms
proof (induction names arbitrary: acc)
  case Nil
  then show ?case by simp
next
  case (Cons name names)
  show ?case
  proof (cases "scan_file m fs root_dir name")
    case (Inl e)
    with Cons.prems(1) show ?thesis by simp
  next
    case (Inr x)
    show ?thesis
    proof (cases x)
      case None
      with Inr Cons.prems have "scan_files m fs root_dir names acc = Inr out"
        by simp
      then show ?thesis
        using Cons.prems(2,3) by (rule Cons.IH)
    next
      case (Some r)
      with Inr Cons.prems have run: "scan_files m fs root_dir names (acc @ [r]) = Inr out"
        by simp
      have "P r"
        using Inr Some Cons.prems(3) by simp
      then have "\<forall>r \<in> set (acc @ [r]). P r"
        using Cons.prems(2) by simp
      with run show ?thesis
        using Cons.prems(3) by (rule Cons.IH)
    qed
  qed
qed

lemma scan_walk_invariant:
  assumes "scan_walk m recursive fs folder_path triples acc = Inr out"
    and "\<forall>r \<in> set acc. P r"
    and "\<And>root_dir name r. scan_file m fs root_dir name = Inr (Some r) \<Longrightarrow> P r"
  shows "\<forall>r \<in> set out. P r"
  using assms
proof (induction triples arbitrary: acc)
  case Nil
  then show ?case by simp
next
  case (Cons t triples)
  obtain root_dir dirs files where t: "t = (root_dir, dirs, files)"
    by (cases t) auto
  show ?case
  proof (cases "\<not> recursive \<and> root_dir \<noteq> folder_path")
    case True
    with Cons.prems(1) t have "scan_walk m recursive fs folder_path triples acc = Inr out"
      by simp
    then show ?thesis
      using Cons.prems(2,3) by (rule Cons.IH)
  next
    case False
    then obtain mid where mid: "scan_files m fs root_dir files acc = Inr mid"
      and rest: "scan_walk m recursive fs folder_path triples mid = Inr out"
      using Cons.prems(1) t by (auto split: sum.splits)
    have "\<forall>r \<in> set mid. P r"
      using mid Cons.prems(2,3) by (rule scan_files_invariant)
    with rest show ?thesis
      using Cons.prems(3) by (rule Cons.IH)
  qed
qed

lemma inaccessible_skipped:
  "inaccessible fs (join root_dir name) \<Longrightarrow> scan_file m fs root_dir name = Inr None"
  by (auto simp: inaccessible_def scan_file_def Let_def skip_or_raise_def split: sum.splits)

lemma scan_files_skip:
  "scan_file m fs root_dir name = Inr None \<Longrightarrow>
   scan_files m fs root_dir (before @ name # after) acc = scan_files m fs root_dir (before @ after) acc"
  by (induction before arbitrary: acc) (simp_all split: sum.splits option.splits)

lemma scan_walk_skip:
  assumes "scan_file m fs root_dir name = Inr None"
  shows "scan_walk m rc fs folder_path (pre @ (root_dir, dirs, before @ name # after) # post) acc =
         scan_walk m rc fs folder_path (pre @ (root_dir, dirs, before @ after) # post) acc"
proof (induction pre arbitrary: acc)
  case Nil
  show ?case
    using assms by (auto simp: scan_files_skip)
next
  case (Cons t pre)
  obtain r d f where "t = (r, d, f)"
    by (cases t) auto
  then show ?case
    using Cons.IH by (auto split: sum.splits)
qed

lemma scan_file_walk_update: "scan_file m (fs\<lparr>walk := w\<rparr>) = scan_file m fs"
  by (simp add: fun_eq_iff scan_file_def Let_def split: sum.splits)

lemma scan_files_walk_update:
  "scan_files m (fs\<lparr>walk := w\<rparr>) root_dir names acc = scan_files m fs root_dir names acc"
  by (induction names arbitrary: acc)
    (simp_all add: scan_file_walk_update split: sum.splits option.splits)

lemma scan_walk_walk_update:
  "scan_walk m rc (fs\<lparr>walk := w\<rparr>) folder_path triples acc = scan_walk m rc fs folder_path triples acc"
proof (induction triples arbitrary: acc)
  case Nil
  show ?case by simp
next
  case (Cons t triples)
  obtain r d f where "t = (r, d, f)"
    by (cases t) auto
  then show ?case
    using Cons.IH by (auto simp: scan_files_walk_update split: sum.splits)
qed

lemma example_extensions:
  "lower (snd (splitext ''big.TXT'')) = ''.txt''"
  "lower (snd (splitext ''small.txt'')) = ''.txt''"
  "lower (snd (splitext ''gone.log'')) = ''.log''"
  "lower (snd (splitext ''locked.bin'')) = ''.bin''"
  "lower (snd (splitext ''notes'')) = []"
  "lower (snd (splitext ''.hidden'')) = []"
  by code_simp+

lemma example_sizes:
  "py_round2 5 = 5"
  "py_round2 20 = 20"
  "py_round2 (1875 / 64) = 293 / 10"
  "py_round2 (1375 / 128) = 537 / 50"
  "py_round2 (10235 / 1024) = 10"
  by code_simp+

lemma example_scan_with: "scan_folder_with 10 True example_fs ''/data'' = Inr example_scan"
  by (simp add: scan_folder_with_def example_fs_def example_scan_def scan_file_def join_def
      example_extensions example_sizes skip_or_raise_def Let_def)

lemma example_scan_default: "scan_folder example_fs ''/data'' = Inr example_scan"
  by (simp add: scan_folder_def MIN_SIZE_KB_def RECURSIVE_def example_scan_with)

section \<open>Lemmas on the median\<close>






section \<open>Duplicate grouping\<close>

text \<open>
  Claim C9. On an empty record sequence \<^verbatim>\<open>find_duplicates\<close> returns the empty mapping
  and raises nothing, whatever the mode string is, recognised or not: the mode is only
  inspected in the body of the loop over the records.
\<close>

theorem find_duplicates_empty_input:
  "find_duplicates [] mode = Inr []"
  by (simp add: find_duplicates_def)

theorem find_duplicates_empty_input_witness:
  "find_duplicates [] ''size'' = Inr [] \<and> find_duplicates [] ''colour'' = Inr []"
  using find_duplicates_empty_input [of "''size''"] find_duplicates_empty_input [of "''colour''"]
  by (rule conjI)

text \<open>
  Claim C5, as stated: every mode string other than \<^verbatim>\<open>size\<close> and \<^verbatim>\<open>name\<close> makes
  \<^verbatim>\<open>find_duplicates\<close> fail with \<^verbatim>\<open>ValueError\<close>, for every record sequence. On the empty
  sequence the unrecognised mode \<^verbatim>\<open>date\<close> does not fail.
\<close>

theorem invalid_mode_empty_input_counterexample:
  "find_duplicates [] ''date'' \<noteq> Inl ValueError \<and> ''date'' \<noteq> ''size'' \<and> ''date'' \<noteq> ''name''"
  by (simp add: find_duplicates_def)

text \<open>
  Claim C5, amended. For every non-empty record sequence and every mode string other than
  \<^verbatim>\<open>size\<close> and \<^verbatim>\<open>name\<close>, \<^verbatim>\<open>find_duplicates\<close> fails with \<^verbatim>\<open>ValueError\<close> (at the first
  record).
\<close>

theorem find_duplicates_invalid_mode:
  assumes "mode \<noteq> ''size''" and "mode \<noteq> ''name''" and "records \<noteq> []"
  shows "find_duplicates records mode = Inl ValueError"
proof -
  obtain r rs where "records = r # rs"
    using assms(3) by (cases records) auto
  then show ?thesis
    using assms(1,2) by (simp add: find_duplicates_def key_of_invalid)
qed

theorem find_duplicates_invalid_mode_witness:
  "''date'' \<noteq> ''size'' \<and> ''date'' \<noteq> ''name'' \<and> size_examples \<noteq> [] \<and>
   find_duplicates size_examples ''date'' = Inl ValueError"
  using find_duplicates_invalid_mode [of "''date''" size_examples]
  by (simp add: size_examples_def)

text \<open>
  Claim C6. For a recognised mode \<^verbatim>\<open>find_duplicates\<close> returns a mapping (no key twice)
  whose keys are exactly the keys shared by two or more records of the input; the group
  of a key is the list of the input records with that key, in input order.
\<close>

theorem find_duplicates_keeps_groups_of_two:
  assumes "mode = ''size'' \<or> mode = ''name''"
  shows "\<exists>res. find_duplicates records mode = Inr res \<and>
           distinct (map fst res) \<and>
           (\<forall>k. k \<in> set (map fst res) \<longleftrightarrow>
                2 \<le> length (filter (\<lambda>r. key_of mode r = Inr k) records)) \<and>
           (\<forall>k g. (k, g) \<in> set res \<longrightarrow>
                g = filter (\<lambda>r. key_of mode r = Inr k) records \<and> subseq g records)"
proof -
  have eq: "(key_of mode r = Inr k) = (mode_key mode r = k)" for r k
    by (simp add: key_of_mode_key [OF assms])
  obtain res where res: "find_duplicates records mode = Inr res" "distinct (map fst res)"
    and mem: "\<And>k g. (k, g) \<in> set res \<longleftrightarrow>
                g = filter (\<lambda>r. mode_key mode r = k) records \<and> 2 \<le> length g"
    using find_duplicates_members [OF assms, of records] by blast
  have "k \<in> set (map fst res) \<longleftrightarrow> 2 \<le> length (filter (\<lambda>r. key_of mode r = Inr k) records)" for k
  proof -
    have "k \<in> set (map fst res) \<longleftrightarrow> (\<exists>g. (k, g) \<in> set res)"
      by force
    then show ?thesis by (simp add: mem eq)
  qed
  moreover have "g = filter (\<lambda>r. key_of mode r = Inr k) records \<and> subseq g records"
    if "(k, g) \<in> set res" for k g
    using that by (simp add: mem eq)
  ultimately show ?thesis using res by blast
qed

theorem find_duplicates_keeps_groups_of_two_witness:
  "(''name'' = ''size'' \<or> ''name'' = ''name'') \<and>
   find_duplicates name_examples ''name'' =
     Inr [(NameKey ''report.pdf'',
           [example_record ''/a'' ''Report.PDF'' ''.pdf'' 20,
            example_record ''/b'' ''report.pdf'' ''.pdf'' 30])] \<and>
   (\<exists>res. find_duplicates name_examples ''name'' = Inr res \<and>
           distinct (map fst res) \<and>
           (\<forall>k. k \<in> set (map fst res) \<longleftrightarrow>
                2 \<le> length (filter (\<lambda>r. key_of ''name'' r = Inr k) name_examples)) \<and>
           (\<forall>k g. (k, g) \<in> set res \<longrightarrow>
                g = filter (\<lambda>r. key_of ''name'' r = Inr k) name_examples \<and> subseq g name_examples))"
proof -
  have mode_ok: "''name'' = ''size'' \<or> ''name'' = ''name''"
    by simp
  have run: "find_duplicates name_examples ''name'' =
     Inr [(NameKey ''report.pdf'',
           [example_record ''/a'' ''Report.PDF'' ''.pdf'' 20,
            example_record ''/b'' ''report.pdf'' ''.pdf'' 30])]"
    by code_simp
  show ?thesis
    by (intro conjI mode_ok run find_duplicates_keeps_groups_of_two [OF mode_ok])
qed

text \<open>
  Claim C10. For a recognised mode, every member of a group of the result has exactly the
  key of its group; no key occurs twice; every group is a subsequence of the input; the
  groups taken together contain each record at most as often as the input does (so an
  occurrence of a record in the input is in at most one group, at most once); and two
  different groups have no record in common.
\<close>

theorem find_duplicates_groups_disjoint:
  assumes "mode = ''size'' \<or> mode = ''name''"
    and "find_duplicates records mode = Inr res"
  shows "(\<forall>(k, g) \<in> set res. \<forall>r \<in> set g. key_of mode r = Inr k) \<and>
         distinct (map fst res) \<and>
         (\<forall>(k, g) \<in> set res. subseq g records) \<and>
         mset (concat (map snd res)) \<subseteq># mset records \<and>
         (\<forall>i j. i < j \<and> j < length res \<longrightarrow> set (snd (res ! i)) \<inter> set (snd (res ! j)) = {})"
proof -
  have mem: "\<And>k g. (k, g) \<in> set res \<longleftrightarrow>
                g = filter (\<lambda>r. mode_key mode r = k) records \<and> 2 \<le> length g"
    and dist: "distinct (map fst res)"
    using find_duplicates_members [OF assms(1), of records] assms(2) by auto
  have keys: "key_of mode r = Inr k" if "(k, g) \<in> set res" "r \<in> set g" for k g r
    using that by (simp add: mem key_of_mode_key [OF assms(1)])
  have sub: "subseq g records" if "(k, g) \<in> set res" for k g
    using that by (simp add: mem)
  have "map snd res = map (\<lambda>k. filter (\<lambda>r. mode_key mode r = k) records) (map fst res)"
    using dist mem by (intro groups_as_filters) simp_all
  then have "mset (concat (map snd res)) =
             mset (concat (map (\<lambda>k. filter (\<lambda>r. mode_key mode r = k) records) (map fst res)))"
    by (rule arg_cong)
  also have "\<dots> = mset (filter (\<lambda>r. mode_key mode r \<in> set (map fst res)) records)"
    using dist by (rule sum_filter_keys)
  finally have incl: "mset (concat (map snd res)) \<subseteq># mset records"
    by simp
  have disj: "set (snd (res ! i)) \<inter> set (snd (res ! j)) = {}" if "i < j" "j < length res" for i j
  proof -
    have ne: "fst (res ! i) \<noteq> fst (res ! j)"
      using dist that by (simp add: distinct_conv_nth)
    have "(fst (res ! i), snd (res ! i)) \<in> set res" "(fst (res ! j), snd (res ! j)) \<in> set res"
      using that by simp_all
    then have "key_of mode r = Inr (fst (res ! i))" "key_of mode r = Inr (fst (res ! j))"
      if "r \<in> set (snd (res ! i))" "r \<in> set (snd (res ! j))" for r
      using that keys by blast+
    with ne show ?thesis by fastforce
  qed
  show ?thesis
    using keys dist sub incl disj by blast
qed

theorem find_duplicates_groups_disjoint_witness:
  "(''size'' = ''size'' \<or> ''size'' = ''name'') \<and>
   find_duplicates mixed_examples ''size'' = Inr mixed_duplicates \<and>
   list_all (\<lambda>(k, g). list_all (\<lambda>r. key_of ''size'' r = Inr k) g) mixed_duplicates \<and>
   distinct (map fst mixed_duplicates) \<and>
   list_all (\<lambda>(k, g). subseq g mixed_examples) mixed_duplicates \<and>
   mset (concat (map snd mixed_duplicates)) \<subseteq># mset mixed_examples \<and>
   set (snd (mixed_duplicates ! 0)) \<inter> set (snd (mixed_duplicates ! 1)) = {}"
proof -
  have mode_ok: "''size'' = ''size'' \<or> ''size'' = ''name''"
    by simp
  have run: "find_duplicates mixed_examples ''size'' = Inr mixed_duplicates"
    by code_simp
  note groups = find_duplicates_groups_disjoint [OF mode_ok run]
  have keys: "list_all (\<lambda>(k, g). list_all (\<lambda>r. key_of ''size'' r = Inr k) g) mixed_duplicates"
    unfolding list_all_iff using groups [THEN conjunct1] .
  have dist: "distinct (map fst mixed_duplicates)"
    using groups by (elim conjE)
  have sub: "list_all (\<lambda>(k, g). subseq g mixed_examples) mixed_duplicates"
    unfolding list_all_iff using groups by (elim conjE)
  have incl: "mset (concat (map snd mixed_duplicates)) \<subseteq># mset mixed_examples"
    using groups by (elim conjE)
  have "\<forall>i j. i < j \<and> j < length mixed_duplicates \<longrightarrow>
       set (snd (mixed_duplicates ! i)) \<inter> set (snd (mixed_duplicates ! j)) = {}"
    using groups by (elim conjE)
  moreover have "(0::nat) < 1 \<and> 1 < length mixed_duplicates"
    by (simp add: mixed_duplicates_def)
  ultimately have disj: "set (snd (mixed_duplicates ! 0)) \<inter> set (snd (mixed_duplicates ! 1)) = {}"
    by blast
  show ?thesis
    by (intro conjI mode_ok run keys dist sub incl disj)
qed





section \<open>Scanning\<close>

text \<open>
  Claim C1. Whatever the root path, the threshold and the recursion flag are, every record
  that \<^verbatim>\<open>scan_folder\<close> returns has \<^verbatim>\<open>size_kb\<close> at least the threshold, and this
  \<^verbatim>\<open>size_kb\<close> is the rounded size of the file at the record's path: no file whose rounded
  size is below the threshold is in the result. With the module's own settings the bound
  is \<^verbatim>\<open>MIN_SIZE_KB\<close>.
\<close>

theorem scan_folder_min_size:
  "(scan_folder_with min_size_kb recursive fs folder_path = Inr records \<longrightarrow>
      (\<forall>r \<in> set records. min_size_kb \<le> size_kb r \<and>
         (\<exists>n. getsize fs (full_path r) = Inr n \<and> size_kb r = py_round2 (of_nat n / 1024)))) \<and>
   (scan_folder fs folder_path = Inr records \<longrightarrow>
      (\<forall>r \<in> set records. MIN_SIZE_KB \<le> size_kb r))"
proof -
  have general: "\<forall>r \<in> set out. m \<le> size_kb r \<and>
         (\<exists>n. getsize fs (full_path r) = Inr n \<and> size_kb r = py_round2 (of_nat n / 1024))"
    if run: "scan_folder_with m rc fs folder_path = Inr out" for m rc out
  proof (rule scan_walk_invariant)
    show "scan_walk m rc fs folder_path (walk fs folder_path) [] = Inr out"
      using run by (simp add: scan_folder_with_def)
    show "\<forall>r \<in> set []. m \<le> size_kb r \<and>
         (\<exists>n. getsize fs (full_path r) = Inr n \<and> size_kb r = py_round2 (of_nat n / 1024))"
      by simp
    show "m \<le> size_kb r \<and>
         (\<exists>n. getsize fs (full_path r) = Inr n \<and> size_kb r = py_round2 (of_nat n / 1024))"
      if "scan_file m fs root_dir name = Inr (Some r)" for root_dir name r
      using scan_file_record [OF that] by blast
  qed
  show ?thesis
    using general [of min_size_kb recursive records] general [of MIN_SIZE_KB RECURSIVE records]
    by (auto simp: scan_folder_def)
qed

theorem scan_folder_min_size_witness:
  "scan_folder_with 10 True example_fs ''/data'' = Inr example_scan \<and>
   scan_folder example_fs ''/data'' = Inr example_scan \<and>
   list_all (\<lambda>r. 10 \<le> size_kb r \<and>
      (\<exists>n. getsize example_fs (full_path r) = Inr n \<and> size_kb r = py_round2 (of_nat n / 1024)))
     example_scan \<and>
   list_all (\<lambda>r. MIN_SIZE_KB \<le> size_kb r) example_scan \<and>
   map size_kb example_scan = [20, 537 / 50, 10]"
proof -
  note run = example_scan_with example_scan_default
  note bound = scan_folder_min_size [of 10 True example_fs "''/data''" example_scan]
  have general: "list_all (\<lambda>r. 10 \<le> size_kb r \<and>
      (\<exists>n. getsize example_fs (full_path r) = Inr n \<and> size_kb r = py_round2 (of_nat n / 1024)))
     example_scan"
    unfolding list_all_iff using bound [THEN conjunct1, THEN mp, OF run(1)] .
  have default: "list_all (\<lambda>r. MIN_SIZE_KB \<le> size_kb r) example_scan"
    unfolding list_all_iff using bound [THEN conjunct2, THEN mp, OF run(2)] .
  have sizes: "map size_kb example_scan = [20, 537 / 50, 10]"
    by (simp add: example_scan_def)
  show ?thesis
    by (intro conjI run general default sizes)
qed

text \<open>
  Claim C8. A file that is inaccessible (its size or its modification time raises
  \<^verbatim>\<open>PermissionError\<close> or \<^verbatim>\<open>FileNotFoundError\<close>) yields no record and no exception, and
  the scan goes on: the loop over the directory's files, and the whole scan, give exactly
  what they give on the same tree without that file.
\<close>

theorem inaccessible_file_skipped:
  assumes "inaccessible fs (join root_dir name)"
    and "walk fs folder_path = pre @ (root_dir, dirs, before @ name # after) # post"
  shows "scan_file min_size_kb fs root_dir name = Inr None \<and>
         scan_files min_size_kb fs root_dir (before @ name # after) records =
           scan_files min_size_kb fs root_dir (before @ after) records \<and>
         scan_folder_with min_size_kb recursive fs folder_path =
           scan_folder_with min_size_kb recursive
             (fs\<lparr>walk := (walk fs)(folder_path := pre @ (root_dir, dirs, before @ after) # post)\<rparr>)
             folder_path \<and>
         scan_folder fs folder_path =
           scan_folder
             (fs\<lparr>walk := (walk fs)(folder_path := pre @ (root_dir, dirs, before @ after) # post)\<rparr>)
             folder_path"
proof -
  have skip: "scan_file m fs root_dir name = Inr None" for m
    using assms(1) by (rule inaccessible_skipped)
  have whole: "scan_folder_with m rc fs folder_path =
      scan_folder_with m rc
        (fs\<lparr>walk := (walk fs)(folder_path := pre @ (root_dir, dirs, before @ after) # post)\<rparr>)
        folder_path" for m rc
    by (simp add: scan_folder_with_def assms(2) scan_walk_skip [OF skip] scan_walk_walk_update)
  show ?thesis
    using skip scan_files_skip [OF skip] whole by (simp add: scan_folder_def)
qed

theorem inaccessible_file_skipped_witness:
  "inaccessible example_fs (join ''/data'' ''locked.bin'') \<and>
   getsize example_fs ''/data/locked.bin'' = Inr 30000 \<and>
   getmtime example_fs ''/data/locked.bin'' = Inl PermissionError \<and>
   walk example_fs ''/data'' =
     [] @ (''/data'', [''sub''], [''small.txt'', ''big.TXT'', ''gone.log''] @ ''locked.bin'' # []) #
     [(''/data/sub'', [], [''notes'', ''.hidden''])] \<and>
   scan_file MIN_SIZE_KB example_fs ''/data'' ''locked.bin'' = Inr None \<and>
   scan_folder example_fs ''/data'' = Inr example_scan \<and>
   scan_folder example_fs ''/data'' = scan_folder example_fs_unlocked ''/data''"
proof -
  have h1: "inaccessible example_fs (join ''/data'' ''locked.bin'')"
    by (simp add: inaccessible_def example_fs_def join_def)
  have h2: "walk example_fs ''/data'' =
     [] @ (''/data'', [''sub''], [''small.txt'', ''big.TXT'', ''gone.log''] @ ''locked.bin'' # []) #
     [(''/data/sub'', [], [''notes'', ''.hidden''])]"
    by (simp add: example_fs_def)
  have stat: "getsize example_fs ''/data/locked.bin'' = Inr 30000"
    "getmtime example_fs ''/data/locked.bin'' = Inl PermissionError"
    by (simp_all add: example_fs_def)
  note run = example_scan_default
  note skipped = inaccessible_file_skipped [OF h1 h2, of MIN_SIZE_KB "[]" RECURSIVE]
  have none: "scan_file MIN_SIZE_KB example_fs ''/data'' ''locked.bin'' = Inr None"
    using skipped by (rule conjunct1)
  have same: "scan_folder example_fs ''/data'' = scan_folder example_fs_unlocked ''/data''"
    unfolding example_fs_unlocked_def
    using skipped [THEN conjunct2, THEN conjunct2, THEN conjunct2] .
  show ?thesis
    by (intro conjI h1 stat h2 none run same)
qed




section \<open>Summary statistics\<close>



text \<open>The summary of the five example records, and of no record.\<close>

lemma print_summary_example:
  "print_summary example_sized =
     Inr \<lparr>total_files = 5, total_size_kb = 345 / 2, average_size_kb = 69 / 2,
          median_size_kb = 30\<rparr>"
  by (simp add: print_summary_def example_sized_def example_record_def median_def Let_def)

lemma print_summary_empty:
  "print_summary [] =
     Inr \<lparr>total_files = 0, total_size_kb = 0, average_size_kb = 0, median_size_kb = 0\<rparr>"
  by (simp add: print_summary_def)

end
